theory Spec2Isabelle
  imports Complex_Main "HOL-Library.AList"
begin

section \<open>Terrain profile module (scripts/terrain\_module.py)\<close>

text \<open>
  The module samples a mosaic of elevation tiles along a line. Python floats are modelled
  as exact reals, Python ints as \<open>int\<close>, exceptions as the left summand of a sum type.
  The third-party collaborators (glob, rasterio, pyproj, shapely's length and
  interpolation) are fields of an environment record. The cache that \<open>lru_cache\<close> keeps
  for the whole process is a state passed in and returned. The calls printing to the
  console are left out.
\<close>

subsection \<open>Exceptions\<close>

datatype message =
    No_tile_includes real real   \<comment> \<open>"No tile includes x {} y {}".format(x, y)\<close>
  | Range_step_zero              \<comment> \<open>range() arg 3 must not be zero\<close>

datatype error =
    ValueError message
  | IndexError                   \<comment> \<open>the array's own out-of-range fault\<close>
  | RasterioIOError string       \<comment> \<open>rasterio.open on a path it cannot read\<close>
  | TransformNotInvertibleError  \<comment> \<open>inverting a degenerate affine transform\<close>

subsection \<open>Built-ins: int() on a float, range()\<close>

definition py_int :: "real \<Rightarrow> int" where
  \<comment> \<open>int(x) truncates towards zero\<close>
  "py_int x = (if 0 \<le> x then \<lfloor>x\<rfloor> else \<lceil>x\<rceil>)"

function range_up :: "int \<Rightarrow> int \<Rightarrow> int \<Rightarrow> int list" where
  "range_up i stop step =
     (if 0 < step \<and> i < stop then i # range_up (i + step) stop step else [])"
  by pat_completeness auto
termination
  by (relation "measure (\<lambda>(i, stop, step). nat (stop - i))") auto

function range_down :: "int \<Rightarrow> int \<Rightarrow> int \<Rightarrow> int list" where
  "range_down i stop step =
     (if step < 0 \<and> stop < i then i # range_down (i + step) stop step else [])"
  by pat_completeness auto
termination
  by (relation "measure (\<lambda>(i, stop, step). nat (i - stop))") auto

declare range_up.simps [simp del] range_down.simps [simp del]

definition py_range :: "int \<Rightarrow> int \<Rightarrow> int \<Rightarrow> error + int list" where
  "py_range start stop step =
     (if step = 0 then Inl (ValueError Range_step_zero)
      else if 0 < step then Inr (range_up start stop step)
      else Inr (range_down start stop step))"

subsection \<open>determine\_length\_increment\<close>

definition determine_length_increment :: "int \<Rightarrow> int" where
  "determine_length_increment len =
     (let increment =
            (if len \<ge> 60000 then real_of_int len / 600
             else max (real_of_int len / 100) 1)
      in py_int increment)"

text \<open>The number of passes of the loop \<open>for currentdistance in range(0, length, increment)\<close>.\<close>

definition sample_count :: "int \<Rightarrow> error + nat" where
  "sample_count len =
     map_sum id length (py_range 0 len (determine_length_increment len))"

subsection \<open>Affine transforms (the affine package used by rasterio)\<close>

type_synonym point = "real \<times> real"

record affine =
  aff_a :: real
  aff_b :: real
  aff_c :: real
  aff_d :: real
  aff_e :: real
  aff_f :: real

definition affine_mul :: "affine \<Rightarrow> point \<Rightarrow> point" where
  \<comment> \<open>\<open>transform * (vx, vy)\<close>\<close>
  "affine_mul t p =
     (case p of (vx, vy) \<Rightarrow>
        (vx * aff_a t + vy * aff_b t + aff_c t, vx * aff_d t + vy * aff_e t + aff_f t))"

definition affine_determinant :: "affine \<Rightarrow> real" where
  "affine_determinant t = aff_a t * aff_e t - aff_b t * aff_d t"

definition affine_invert :: "affine \<Rightarrow> error + affine" where
  \<comment> \<open>\<open>~transform\<close>\<close>
  "affine_invert t =
     (if affine_determinant t = 0 then Inl TransformNotInvertibleError
      else
        let idet = 1 / affine_determinant t;
            ra = aff_e t * idet;
            rb = - aff_b t * idet;
            rd = - aff_d t * idet;
            re = aff_a t * idet
        in Inr \<lparr>aff_a = ra, aff_b = rb, aff_c = - aff_c t * ra - aff_f t * rb,
                 aff_d = rd, aff_e = re, aff_f = - aff_c t * rd - aff_f t * re\<rparr>)"

subsection \<open>Two-dimensional arrays and their indexing\<close>

record ndarray =
  nrows :: nat
  ncols :: nat
  cells :: "real list"   \<comment> \<open>row-major\<close>

definition axis_index :: "nat \<Rightarrow> int \<Rightarrow> error + nat" where
  \<comment> \<open>an index along one axis of length \<open>n\<close>: a negative index counts from the end\<close>
  "axis_index n i =
     (let j = (if i < 0 then i + int n else i)
      in if 0 \<le> j \<and> j < int n then Inr (nat j) else Inl IndexError)"

definition getitem :: "ndarray \<Rightarrow> int \<Rightarrow> int \<Rightarrow> error + real" where
  \<comment> \<open>\<open>band[row, col]\<close>\<close>
  "getitem band row col =
     (case axis_index (nrows band) row of
        Inl e \<Rightarrow> Inl e
      | Inr r \<Rightarrow>
          (case axis_index (ncols band) col of
             Inl e \<Rightarrow> Inl e
           | Inr c \<Rightarrow> Inr (cells band ! (r * ncols band + c))))"

subsection \<open>The environment: files, reprojection, line geometry\<close>

type_synonym bounds = "real \<times> real \<times> real \<times> real"   \<comment> \<open>(left, bottom, right, top)\<close>

record dataset =
  ds_bounds :: bounds
  ds_transform :: affine
  ds_bands :: "ndarray list"

definition dataset_read :: "dataset \<Rightarrow> int \<Rightarrow> error + ndarray" where
  \<comment> \<open>\<open>dataset.read(band)\<close>, bands counted from 1\<close>
  "dataset_read ds band =
     (if 1 \<le> band \<and> band \<le> int (length (ds_bands ds))
      then Inr (ds_bands ds ! nat (band - 1)) else Inl IndexError)"

record env =
  glob_tif :: "string \<Rightarrow> string list"
    \<comment> \<open>\<open>glob.glob(os.path.join(dem_folder, "*.tif"))\<close>\<close>
  rasterio_open :: "string \<Rightarrow> dataset option"
    \<comment> \<open>\<open>rasterio.open(tile_path)\<close>; \<open>None\<close> when the file cannot be read\<close>
  pyproj_transform :: "string \<Rightarrow> string \<Rightarrow> point \<Rightarrow> point"
    \<comment> \<open>\<open>pyproj.transform(pyproj.Proj(init=p1), pyproj.Proj(init=p2), x, y)\<close>\<close>
  line_length :: "point list \<Rightarrow> real"
    \<comment> \<open>\<open>LineString(coords).length\<close>\<close>
  interpolate :: "point list \<Rightarrow> real \<Rightarrow> point"
    \<comment> \<open>\<open>LineString(coords).interpolate(distance)\<close>\<close>

subsection \<open>load\_extents and get\_tile\_path\_for\_point\<close>

type_synonym extents = "(bounds \<times> string) list"
  \<comment> \<open>the dict, in insertion order; a key set again keeps its place\<close>

fun load_extents_loop :: "env \<Rightarrow> string list \<Rightarrow> extents \<Rightarrow> error + extents" where
  "load_extents_loop env [] extents = Inr extents"
| "load_extents_loop env (tile_path # rest) extents =
     (case rasterio_open env tile_path of
        None \<Rightarrow> Inl (RasterioIOError tile_path)
      | Some dataset \<Rightarrow>
          load_extents_loop env rest (AList.update (ds_bounds dataset) tile_path extents))"

definition load_extents :: "env \<Rightarrow> string \<Rightarrow> error + extents" where
  "load_extents env dem_folder = load_extents_loop env (glob_tif env dem_folder) []"

fun get_tile_path_for_point :: "extents \<Rightarrow> real \<Rightarrow> real \<Rightarrow> error + string" where
  "get_tile_path_for_point [] x y = Inl (ValueError (No_tile_includes x y))"
| "get_tile_path_for_point (((left, bottom, right, top'), path) # rest) x y =
     (if x \<ge> left \<and> x \<le> right \<and> y \<le> top' \<and> y \<ge> bottom then Inr path
      else get_tile_path_for_point rest x y)"

subsection \<open>load\_dataset behind lru\_cache(maxsize=32)\<close>

definition load_dataset :: "env \<Rightarrow> string \<Rightarrow> int \<Rightarrow> error + ndarray \<times> affine" where
  "load_dataset env tile_path band =
     (case rasterio_open env tile_path of
        None \<Rightarrow> Inl (RasterioIOError tile_path)
      | Some dataset \<Rightarrow>
          (case dataset_read dataset band of
             Inl e \<Rightarrow> Inl e
           | Inr b \<Rightarrow>
               (case affine_invert (ds_transform dataset) of
                  Inl e \<Rightarrow> Inl e
                | Inr t \<Rightarrow> Inr (b, t))))"

definition maxsize :: nat where
  "maxsize = 32"

record lru_cache =
  entries :: "(string \<times> ndarray \<times> affine) list"
    \<comment> \<open>most recently used first\<close>
  decodes :: nat
    \<comment> \<open>how many times the body of \<open>load_dataset\<close> has run\<close>

definition cached_load_dataset ::
  "env \<Rightarrow> lru_cache \<Rightarrow> string \<Rightarrow> (error + ndarray \<times> affine) \<times> lru_cache" where
  "cached_load_dataset env cache tile_path =
     (case map_of (entries cache) tile_path of
        Some v \<Rightarrow>
          (Inr v, cache\<lparr>entries := (tile_path, v) # AList.delete tile_path (entries cache)\<rparr>)
      | None \<Rightarrow>
          (case load_dataset env tile_path 1 of
             Inl e \<Rightarrow> (Inl e, cache\<lparr>decodes := Suc (decodes cache)\<rparr>)
           | Inr v \<Rightarrow>
               (Inr v,
                cache\<lparr>entries :=
                         (tile_path, v) #
                         (if length (entries cache) \<ge> maxsize then butlast (entries cache)
                          else entries cache),
                       decodes := Suc (decodes cache)\<rparr>)))"

text \<open>The cache after a sequence of calls, one per path.\<close>

definition cache_after :: "env \<Rightarrow> lru_cache \<Rightarrow> string list \<Rightarrow> lru_cache" where
  "cache_after env cache paths =
     foldl (\<lambda>c tile_path. snd (cached_load_dataset env c tile_path)) cache paths"

text \<open>
  A cache agrees with the files when every entry is what \<open>load_dataset\<close> returns for its
  path: the decodings held are decodings of the files as they are.
\<close>

definition cache_ok :: "env \<Rightarrow> lru_cache \<Rightarrow> bool" where
  "cache_ok env cache \<longleftrightarrow> list_all (\<lambda>(p, v). load_dataset env p 1 = Inr v) (entries cache)"

subsection \<open>transform\_xy\_to\_rowcol and get\_value\_from\_dem\_tile\<close>

definition transform_xy_to_rowcol :: "affine \<Rightarrow> real \<Rightarrow> real \<Rightarrow> int \<times> int" where
  "transform_xy_to_rowcol t x y =
     (let eps = 0 in
      case affine_mul t (x + eps, y - eps) of (col, row) \<Rightarrow> (\<lfloor>row\<rfloor>, \<lfloor>col\<rfloor>))"

definition get_value_from_dem_tile ::
  "env \<Rightarrow> lru_cache \<Rightarrow> string \<Rightarrow> real \<Rightarrow> real \<Rightarrow> (error + real) \<times> lru_cache" where
  "get_value_from_dem_tile env cache tile_path x y =
     (case cached_load_dataset env cache tile_path of
        (Inl e, cache') \<Rightarrow> (Inl e, cache')
      | (Inr (band, t), cache') \<Rightarrow>
          (case transform_xy_to_rowcol t x y of
             (row, col) \<Rightarrow> (getitem band row col, cache')))"

subsection \<open>terrain\_module\<close>

text \<open>
  \<open>sample_loop\<close> is the \<open>for\<close> loop over the distances, with the three lists it appends
  to: \<open>x\<close> and \<open>y\<close>, the coordinates of the points sampled, and \<open>elevation_profile\<close>. The
  argument \<open>line\<close> of \<open>terrain_module\<close> stands for the coordinates
  \<open>line['geometry']['coordinates']\<close>; \<open>terrain_module\<close> returns the profile alone.
\<close>

fun sample_loop ::
  "env \<Rightarrow> extents \<Rightarrow> point list \<Rightarrow> (point \<Rightarrow> point) \<Rightarrow> int list \<Rightarrow> lru_cache
     \<Rightarrow> real list \<Rightarrow> real list \<Rightarrow> real list
     \<Rightarrow> (error + real list \<times> real list \<times> real list) \<times> lru_cache" where
  "sample_loop env extents line_geometry osgb_to_ll [] cache x y elevation_profile =
     (Inr (x, y, elevation_profile), cache)"
| "sample_loop env extents line_geometry osgb_to_ll (currentdistance # rest) cache
       x y elevation_profile =
     (case osgb_to_ll (interpolate env line_geometry (real_of_int currentdistance)) of
        (xp, yp) \<Rightarrow>
          (case get_tile_path_for_point extents xp yp of
             Inl e \<Rightarrow> (Inl e, cache)
           | Inr tile_path \<Rightarrow>
               (case get_value_from_dem_tile env cache tile_path xp yp of
                  (Inl e, cache') \<Rightarrow> (Inl e, cache')
                | (Inr z, cache') \<Rightarrow>
                    sample_loop env extents line_geometry osgb_to_ll rest cache'
                      (x @ [xp]) (y @ [yp]) (elevation_profile @ [z]))))"

definition terrain_module ::
  "env \<Rightarrow> lru_cache \<Rightarrow> string \<Rightarrow> point list \<Rightarrow> string \<Rightarrow> string
     \<Rightarrow> (error + real list) \<times> lru_cache" where
  "terrain_module env cache dem_folder line old_crs new_crs =
     (case load_extents env dem_folder of
        Inl e \<Rightarrow> (Inl e, cache)
      | Inr extents \<Rightarrow>
          (let ll_to_osgb = pyproj_transform env ''epsg:4326'' ''epsg:27700'';
               line_geometry = map ll_to_osgb line;
               len = py_int (line_length env line_geometry);
               increment = determine_length_increment len;
               osgb_to_ll = pyproj_transform env ''epsg:27700'' ''epsg:4326''
           in case py_range 0 len increment of
                Inl e \<Rightarrow> (Inl e, cache)
              | Inr distances \<Rightarrow>
                  (case sample_loop env extents line_geometry osgb_to_ll distances cache
                          [] [] [] of
                     (Inl e, cache') \<Rightarrow> (Inl e, cache')
                   | (Inr (x, y, elevation_profile), cache') \<Rightarrow>
                       (Inr elevation_profile, cache'))))"

text \<open>
  The pipeline as the specification words it, for comparison with \<open>terrain_module\<close>: it
  reprojects from the caller's geographic reference system into the caller's projected one
  and back.
\<close>

definition ExtractProfile_spec ::
  "env \<Rightarrow> lru_cache \<Rightarrow> string \<Rightarrow> point list \<Rightarrow> string \<Rightarrow> string
     \<Rightarrow> (error + real list) \<times> lru_cache" where
  "ExtractProfile_spec env cache demDirectory pathGeometry geographicCRS projectedCRS =
     (case load_extents env demDirectory of
        Inl e \<Rightarrow> (Inl e, cache)
      | Inr index \<Rightarrow>
          (let projected = map (pyproj_transform env geographicCRS projectedCRS) pathGeometry;
               len = py_int (line_length env projected);
               increment = determine_length_increment len
           in case py_range 0 len increment of
                Inl e \<Rightarrow> (Inl e, cache)
              | Inr distances \<Rightarrow>
                  (case sample_loop env index projected
                          (pyproj_transform env projectedCRS geographicCRS) distances cache
                          [] [] [] of
                     (Inl e, cache') \<Rightarrow> (Inl e, cache')
                   | (Inr (x, y, profile), cache') \<Rightarrow> (Inr profile, cache'))))"

subsection \<open>A fresh cache, and a small mosaic for worked instances\<close>

definition fresh_cache :: lru_cache where
  "fresh_cache = \<lparr>entries = [], decodes = 0\<rparr>"

text \<open>
  One north-up tile of two rows and two columns over the square from (0, 0) to (2, 2), with
  unit cells: column = x, row = 2 - y.
\<close>

definition tile_band :: ndarray where
  "tile_band = \<lparr>nrows = 2, ncols = 2, cells = [1, 2, 3, 4]\<rparr>"

definition tile_dataset :: dataset where
  "tile_dataset =
     \<lparr>ds_bounds = (0, 0, 2, 2),
      ds_transform = \<lparr>aff_a = 1, aff_b = 0, aff_c = 0, aff_d = 0, aff_e = - 1, aff_f = 2\<rparr>,
      ds_bands = [tile_band]\<rparr>"

text \<open>
  A second tile of two rows and two columns, with cells of side 2 over the square from
  (10, 16) to (14, 20): x = 2 * column + 10 and y = 20 - 2 * row.
\<close>

definition coarse_dataset :: dataset where
  "coarse_dataset =
     \<lparr>ds_bounds = (10, 16, 14, 20),
      ds_transform = \<lparr>aff_a = 2, aff_b = 0, aff_c = 10, aff_d = 0, aff_e = - 2, aff_f = 20\<rparr>,
      ds_bands = [tile_band]\<rparr>"

definition tile_inverse :: affine where
  \<comment> \<open>the inverse of the tile's transform (it is its own inverse)\<close>
  "tile_inverse = \<lparr>aff_a = 1, aff_b = 0, aff_c = 0, aff_d = 0, aff_e = - 1, aff_f = 2\<rparr>"

text \<open>
  Collaborators for lines that run east: a reference system only scales the plane
  (\<open>epsg:3857\<close> by 2, the others by 1), the length of a line is the distance between the
  abscissas of its ends, and interpolation moves east from its first point.
\<close>

definition crs_unit :: "string \<Rightarrow> real" where
  "crs_unit crs = (if crs = ''epsg:3857'' then 2 else 1)"

definition demo_env :: env where
  "demo_env =
     \<lparr>glob_tif =
        (\<lambda>folder. if folder = ''dem'' then [''dem/a.tif'']
                  else if folder = ''coarse'' then [''coarse/b.tif''] else []),
      rasterio_open =
        (\<lambda>path. if path = ''dem/a.tif'' then Some tile_dataset
                else if path = ''coarse/b.tif'' then Some coarse_dataset else None),
      pyproj_transform =
        (\<lambda>src dst p. (fst p * crs_unit dst / crs_unit src, snd p * crs_unit dst / crs_unit src)),
      line_length = (\<lambda>g. if g = [] then 0 else \<bar>fst (last g) - fst (hd g)\<bar>),
      interpolate = (\<lambda>g d. (fst (hd g) + d, snd (hd g)))\<rparr>"

text \<open>Two tiles side by side, sharing the edge \<open>x = 10\<close>.\<close>

definition two_tiles :: extents where
  "two_tiles = [((0, 0, 10, 10), ''tile1''), ((10, 0, 20, 10), ''tile2'')]"

text \<open>
  The same collaborators with a folder in which every path opens as the tile above, and 33
  distinct paths of it.
\<close>

definition open_all_env :: env where
  "open_all_env = demo_env\<lparr>rasterio_open := (\<lambda>path. Some tile_dataset)\<rparr>"

definition many_paths :: "string list" where
  "many_paths = map (\<lambda>n. replicate n CHR ''t'') [1..<34]"

section \<open>Properties\<close>

subsection \<open>range()\<close>

lemma length_range_up:
  "0 < step \<Longrightarrow> length (range_up i stop step) = nat ((stop - i + step - 1) div step)"
proof (induction i stop step rule: range_up.induct)
  case (1 i stop step)
  show ?case
  proof (cases "i < stop")
    case True
    have pos: "0 \<le> (stop - i - 1) div step"
      using True "1.prems" by (simp add: pos_imp_zdiv_nonneg_iff)
    have "(stop - i + step - 1) div step = (stop - i - 1) div step + 1"
      using "1.prems" div_add_self2 [of step "stop - i - 1"] by (simp add: algebra_simps)
    moreover have "stop - (i + step) + step - 1 = stop - i - 1" by simp
    ultimately show ?thesis
      using True "1.prems" "1.IH" pos
      by (subst range_up.simps) (simp add: nat_add_distrib)
  next
    case False
    then have "(stop - i + step - 1) div step \<le> (step - 1) div step"
      using "1.prems" by (intro zdiv_mono1) simp_all
    moreover have "(step - 1) div step = 0"
      using "1.prems" by simp
    ultimately have "(stop - i + step - 1) div step \<le> 0" by simp
    with False show ?thesis
      by (subst range_up.simps) simp
  qed
qed

lemma nth_range_up:
  "0 < step \<Longrightarrow> n < length (range_up i stop step) \<Longrightarrow>
     range_up i stop step ! n = i + int n * step"
proof (induction i stop step arbitrary: n rule: range_up.induct)
  case (1 i stop step)
  show ?case
  proof (cases "i < stop")
    case True
    then have unfold: "range_up i stop step = i # range_up (i + step) stop step"
      using "1.prems"(1) by (subst range_up.simps) simp
    show ?thesis
    proof (cases n)
      case 0
      then show ?thesis by (simp add: unfold)
    next
      case (Suc m)
      then have "m < length (range_up (i + step) stop step)"
        using "1.prems"(2) unfold by simp
      then have "range_up (i + step) stop step ! m = i + step + int m * step"
        using "1.IH" True "1.prems"(1) by simp
      then show ?thesis
        using Suc by (simp add: unfold algebra_simps)
    qed
  next
    case False
    then have "range_up i stop step = []"
      by (subst range_up.simps) simp
    with "1.prems"(2) show ?thesis by simp
  qed
qed

lemma range_up_below_stop:
  "d \<in> set (range_up i stop step) \<Longrightarrow> d < stop"
proof (induction i stop step rule: range_up.induct)
  case (1 i stop step)
  show ?case
  proof (cases "0 < step \<and> i < stop")
    case True
    then have "range_up i stop step = i # range_up (i + step) stop step"
      by (subst range_up.simps) simp
    with "1.prems" "1.IH" True show ?thesis by auto
  next
    case False
    then have "range_up i stop step = []"
      by (subst range_up.simps) simp
    with "1.prems" show ?thesis by simp
  qed
qed

subsection \<open>The increment policy\<close>

lemma determine_length_increment_div:
  "0 \<le> len \<Longrightarrow> determine_length_increment len =
     (if len \<ge> 60000 then len div 600 else max (len div 100) 1)"
proof -
  assume nonneg: "0 \<le> len"
  have a: "\<lfloor>real_of_int len / 600\<rfloor> = len div 600"
    using floor_divide_of_int_eq [of len 600, where ?'a = real] by simp
  have b: "\<lfloor>real_of_int len / 100\<rfloor> = len div 100"
    using floor_divide_of_int_eq [of len 100, where ?'a = real] by simp
  have c: "\<lfloor>max (real_of_int len / 100) 1\<rfloor> = max (len div 100) 1"
    using b by (simp add: max_def le_floor_iff) linarith
  show ?thesis
    using nonneg a c by (simp add: determine_length_increment_def py_int_def Let_def max_def)
qed

text \<open>
  Claim C5. For a non-negative integer length below 60000 the increment is
  \<open>max(floor(length/100), 1)\<close>, from 60000 on it is \<open>floor(length/600)\<close>, and the increment
  of length 0 is 1. (The quotient is the exact one: the rounding of the float division is
  outside this model.)
\<close>

theorem determine_length_increment_cases:
  "0 \<le> len \<Longrightarrow>
     (len < 60000 \<longrightarrow> determine_length_increment len = max \<lfloor>real_of_int len / 100\<rfloor> 1) \<and>
     (len \<ge> 60000 \<longrightarrow> determine_length_increment len = \<lfloor>real_of_int len / 600\<rfloor>) \<and>
     determine_length_increment 0 = 1"
proof -
  assume nonneg: "0 \<le> len"
  have a: "\<lfloor>real_of_int len / 600\<rfloor> = len div 600"
    using floor_divide_of_int_eq [of len 600, where ?'a = real] by simp
  have b: "\<lfloor>real_of_int len / 100\<rfloor> = len div 100"
    using floor_divide_of_int_eq [of len 100, where ?'a = real] by simp
  have z: "determine_length_increment 0 = 1"
    by (simp add: determine_length_increment_def py_int_def)
  show ?thesis
    using nonneg z by (simp add: determine_length_increment_div a b)
qed

theorem determine_length_increment_cases_witness:
  "(0::int) \<le> 30000 \<and> (30000::int) < 60000 \<and> determine_length_increment 30000 = 300 \<and>
   (0::int) \<le> 120000 \<and> (120000::int) \<ge> 60000 \<and> determine_length_increment 120000 = 200"
  using determine_length_increment_cases [of 30000] determine_length_increment_cases [of 120000]
  by simp

lemma increment_positive: "0 < determine_length_increment len"
  by (simp add: determine_length_increment_def py_int_def Let_def max_def)

lemma py_range_positive_step:
  "0 < step \<Longrightarrow> py_range start stop step = Inr (range_up start stop step)"
  by (simp add: py_range_def)

lemma sample_count_eq:
  "sample_count len =
     Inr (nat ((len + determine_length_increment len - 1) div determine_length_increment len))"
  using increment_positive [of len]
  by (simp add: sample_count_def py_range_positive_step length_range_up)

text \<open>
  Claim C1. The claim bounds the number of sample positions by 600 for every non-negative
  length. At length 60599 the increment is 100 and the loop runs 606 times, so the profile
  has 606 values.
\<close>

theorem sample_count_60599: "sample_count 60599 = Inr 606 \<and> \<not> (606::nat) \<le> 600"
  by (simp add: sample_count_eq determine_length_increment_div)

text \<open>
  The loop never runs more than 606 times, and the profile a successful call returns has one
  value for each pass.
\<close>

lemma div_le_of_less_mult:
  fixes x k n :: int
  assumes "0 < k" and "x < (n + 1) * k"
  shows "x div k \<le> n"
proof -
  have "x \<le> (k - 1) + n * k" using assms(2) by (simp add: algebra_simps)
  then have "x div k \<le> ((k - 1) + n * k) div k"
    using assms(1) by (intro zdiv_mono1)
  also have "\<dots> = n + (k - 1) div k"
    using assms(1) div_mult_self1 [of k "k - 1" n] by simp
  also have "\<dots> = n" using assms(1) by simp
  finally show ?thesis .
qed

lemma sample_count_le_606:
  assumes "0 \<le> len"
  shows "\<exists>n. sample_count len = Inr n \<and> n \<le> 606"
proof -
  let ?k = "determine_length_increment len"
  have kpos: "0 < ?k" by (rule increment_positive)
  have "(len + ?k - 1) div ?k \<le> 606"
  proof (cases "len \<ge> 60000")
    case True
    then have k: "?k = len div 600" using assms by (simp add: determine_length_increment_div)
    have k100: "100 \<le> ?k" using True k by simp
    have "len < 600 * ?k + 600" using k by simp
    then have "len + ?k - 1 < (606 + 1) * ?k" using k100 by simp
    then show ?thesis
      using kpos by (intro div_le_of_less_mult)
  next
    case False
    then have k: "?k = max (len div 100) 1" using assms by (simp add: determine_length_increment_div)
    show ?thesis
    proof (cases "len < 100")
      case True
      then have "?k = 1" using k assms by simp
      then show ?thesis using True by simp
    next
      case False
      then have k': "?k = len div 100" using k by simp
      have "len < 100 * ?k + 100" using k' by simp
      moreover have "1 \<le> ?k" using kpos by simp
      ultimately have "len + ?k - 1 < (200 + 1) * ?k" by simp
      then have "(len + ?k - 1) div ?k \<le> 200"
        using kpos by (intro div_le_of_less_mult)
      then show ?thesis by simp
    qed
  qed
  then show ?thesis by (simp add: sample_count_eq)
qed

lemma sample_loop_result:
  "sample_loop env extents g to_ll ds cache x y prof = (Inr (x', y', prof'), cache') \<Longrightarrow>
     length prof' = length prof + length ds \<and>
     x' = x @ map (\<lambda>d. fst (to_ll (interpolate env g (real_of_int d)))) ds \<and>
     y' = y @ map (\<lambda>d. snd (to_ll (interpolate env g (real_of_int d)))) ds"
proof (induction ds arbitrary: cache x y prof)
  case Nil
  then show ?case by simp
next
  case (Cons d ds)
  obtain xp yp where pt: "to_ll (interpolate env g (real_of_int d)) = (xp, yp)"
    by (cases "to_ll (interpolate env g (real_of_int d))")
  from Cons.prems pt obtain tile_path z c where
    rest: "sample_loop env extents g to_ll ds c (x @ [xp]) (y @ [yp]) (prof @ [z])
             = (Inr (x', y', prof'), cache')"
    by (auto split: sum.splits prod.splits)
  from Cons.IH [OF rest] pt show ?case by simp
qed

lemma sample_loop_length:
  "sample_loop env extents g to_ll ds cache x y prof = (Inr (x', y', prof'), cache') \<Longrightarrow>
     length prof' = length prof + length ds"
  by (simp add: sample_loop_result)

lemma terrain_module_run:
  assumes "terrain_module env cache dem_folder line old_crs new_crs = (Inr profile, cache')"
  shows "\<exists>extents x y.
           load_extents env dem_folder = Inr extents \<and>
           sample_loop env extents (map (pyproj_transform env ''epsg:4326'' ''epsg:27700'') line)
             (pyproj_transform env ''epsg:27700'' ''epsg:4326'')
             (range_up 0
                (py_int (line_length env
                   (map (pyproj_transform env ''epsg:4326'' ''epsg:27700'') line)))
                (determine_length_increment
                   (py_int (line_length env
                      (map (pyproj_transform env ''epsg:4326'' ''epsg:27700'') line)))))
             cache [] [] [] = (Inr (x, y, profile), cache')"
  using assms increment_positive
  by (auto simp: terrain_module_def Let_def py_range_positive_step
        split: sum.splits prod.splits)

lemma terrain_module_profile_length:
  assumes "terrain_module env cache dem_folder line old_crs new_crs = (Inr profile, cache')"
  shows "sample_count (py_int (line_length env
           (map (pyproj_transform env ''epsg:4326'' ''epsg:27700'') line))) = Inr (length profile)"
proof -
  from terrain_module_run [OF assms] obtain extents x y where
    "sample_loop env extents (map (pyproj_transform env ''epsg:4326'' ''epsg:27700'') line)
             (pyproj_transform env ''epsg:27700'' ''epsg:4326'')
             (range_up 0
                (py_int (line_length env
                   (map (pyproj_transform env ''epsg:4326'' ''epsg:27700'') line)))
                (determine_length_increment
                   (py_int (line_length env
                      (map (pyproj_transform env ''epsg:4326'' ''epsg:27700'') line)))))
             cache [] [] [] = (Inr (x, y, profile), cache')"
    by blast
  from sample_loop_length [OF this] show ?thesis
    using increment_positive by (simp add: sample_count_def py_range_positive_step)
qed

subsection \<open>The walk along the line\<close>

text \<open>
  Claim C4, as stated, fails. For a line of length 350 the increment is 3, and the loop
  visits the distances 0, 3, ..., 348 of \<open>range(0, 350, 3)\<close>: 117 positions, where
  \<open>floor(350 / 3)\<close> is 116.
\<close>

theorem walk_count_counterexample:
  "determine_length_increment 350 = 3 \<and>
   map_sum id length (py_range 0 350 (determine_length_increment 350)) = Inr 117 \<and>
   sample_count 350 = Inr 117 \<and>
   (117::nat) \<noteq> nat \<lfloor>(350::real) / 3\<rfloor>"
proof -
  have k: "determine_length_increment 350 = 3"
    by (simp add: determine_length_increment_div)
  have n: "sample_count 350 = Inr 117"
    by (simp add: sample_count_eq k)
  have "\<lfloor>(350::real) / 3\<rfloor> = 116" by (simp add: floor_eq_iff)
  with k n show ?thesis by (simp add: sample_count_def)
qed

lemma ceil_div:
  fixes L k :: int
  assumes "0 < k"
  shows "(L + k - 1) div k = L div k + (if k dvd L then 0 else 1)"
proof -
  define q where "q = L div k"
  define r where "r = L mod k"
  have L: "L = r + q * k" by (simp add: q_def r_def)
  have r: "0 \<le> r" "r < k" using assms by (simp_all add: r_def)
  have split: "(L + k - 1) div k = q + (r + k - 1) div k"
    using assms div_mult_self1 [of k "r + k - 1" q] by (simp add: L algebra_simps)
  show ?thesis
  proof (cases "k dvd L")
    case True
    then have "r = 0" by (simp add: r_def)
    then have "(r + k - 1) div k = 0" using assms by simp
    with True split show ?thesis by (simp add: q_def)
  next
    case False
    then have "r \<noteq> 0" by (simp add: r_def dvd_eq_mod_eq_0)
    then have "0 \<le> r - 1" "r - 1 < k" using r by simp_all
    then have "(r - 1) div k = 0" by simp
    moreover have "(r + k - 1) div k = 1 + (r - 1) div k"
      using assms div_mult_self1 [of k "r - 1" 1] by (simp add: algebra_simps)
    ultimately have "(r + k - 1) div k = 1" by simp
    with False split show ?thesis by (simp add: q_def)
  qed
qed

text \<open>
  Claim C4, amended. For a length \<open>L \<ge> 0\<close> and an increment \<open>k > 0\<close> the loop runs over
  \<open>floor(L / k)\<close> distances when \<open>k\<close> divides \<open>L\<close> and over one more otherwise (the ceiling of
  \<open>L / k\<close>); distance \<open>i\<close> is \<open>i * k\<close>, strictly below \<open>L\<close>. When the loop completes, it has
  appended one value per distance, and the point it sampled in pass \<open>i\<close> is the reprojection
  of the point interpolated on the line at the distance \<open>i * k\<close>.
\<close>

theorem walk_positions:
  assumes "0 < k" and "0 \<le> L"
  shows "\<exists>distances. py_range 0 L k = Inr distances \<and>
           length distances = nat (L div k + (if k dvd L then 0 else 1)) \<and>
           (\<forall>i < length distances. distances ! i = int i * k \<and> distances ! i < L) \<and>
           (\<forall>x y profile.
              fst (sample_loop env extents line_geometry osgb_to_ll distances cache [] [] [])
                = Inr (x, y, profile) \<longrightarrow>
              length profile = length distances \<and>
              length x = length distances \<and> length y = length distances \<and>
              (\<forall>i < length distances.
                 (x ! i, y ! i) =
                   osgb_to_ll (interpolate env line_geometry (real_of_int (int i * k)))))"
proof -
  let ?ds = "range_up 0 L k"
  have run: "py_range 0 L k = Inr ?ds"
    using assms(1) by (rule py_range_positive_step)
  have len: "length ?ds = nat (L div k + (if k dvd L then 0 else 1))"
    using assms(1) ceil_div [of k L] by (simp add: length_range_up)
  have nth: "?ds ! i = int i * k" if "i < length ?ds" for i
    using nth_range_up [OF assms(1) that] by simp
  have pos: "\<forall>i < length ?ds. ?ds ! i = int i * k \<and> ?ds ! i < L"
  proof (intro allI impI conjI)
    fix i assume i: "i < length ?ds"
    show "?ds ! i = int i * k" using i by (rule nth)
    show "?ds ! i < L"
      using i by (intro range_up_below_stop [of _ 0 L k]) simp
  qed
  have loop: "\<forall>x y profile.
      fst (sample_loop env extents line_geometry osgb_to_ll ?ds cache [] [] [])
        = Inr (x, y, profile) \<longrightarrow>
      length profile = length ?ds \<and> length x = length ?ds \<and> length y = length ?ds \<and>
      (\<forall>i < length ?ds.
         (x ! i, y ! i) = osgb_to_ll (interpolate env line_geometry (real_of_int (int i * k))))"
  proof (intro allI impI)
    fix x y profile
    assume "fst (sample_loop env extents line_geometry osgb_to_ll ?ds cache [] [] [])
              = Inr (x, y, profile)"
    then obtain cache' where
      "sample_loop env extents line_geometry osgb_to_ll ?ds cache [] [] []
         = (Inr (x, y, profile), cache')"
      by (cases "sample_loop env extents line_geometry osgb_to_ll ?ds cache [] [] []") simp
    from sample_loop_result [OF this]
    have res: "length profile = length ?ds"
      "x = map (\<lambda>d. fst (osgb_to_ll (interpolate env line_geometry (real_of_int d)))) ?ds"
      "y = map (\<lambda>d. snd (osgb_to_ll (interpolate env line_geometry (real_of_int d)))) ?ds"
      by simp_all
    have "(x ! i, y ! i) = osgb_to_ll (interpolate env line_geometry (real_of_int (int i * k)))"
      if "i < length ?ds" for i
      using that by (simp add: res nth)
    with res show "length profile = length ?ds \<and> length x = length ?ds \<and>
      length y = length ?ds \<and>
      (\<forall>i < length ?ds.
         (x ! i, y ! i) = osgb_to_ll (interpolate env line_geometry (real_of_int (int i * k))))"
      by simp
  qed
  from run len pos loop show ?thesis by blast
qed

theorem walk_positions_witness:
  "(0::int) < 2 \<and> (0::int) \<le> 3 \<and>
   py_range 0 3 2 = Inr [0, 2] \<and>
   fst (sample_loop demo_env [((0, 0, 2, 2), ''dem/a.tif'')] [(0, 3), (3, 3)]
          (pyproj_transform demo_env ''epsg:3857'' ''epsg:4326'') [0, 2] fresh_cache [] [] [])
     = Inr ([0, 1], [3/2, 3/2], [1, 2]) \<and>
   pyproj_transform demo_env ''epsg:3857'' ''epsg:4326''
     (interpolate demo_env [(0, 3), (3, 3)] (real_of_int (int 1 * 2))) = (1, 3/2)"
proof -
  have r: "range_up 0 3 2 = [0, 2]" by code_simp
  then have pr: "py_range 0 3 2 = Inr [0, 2]" by (simp add: py_range_def)
  have run: "fst (sample_loop demo_env [((0, 0, 2, 2), ''dem/a.tif'')] [(0, 3), (3, 3)]
          (pyproj_transform demo_env ''epsg:3857'' ''epsg:4326'') [0, 2] fresh_cache [] [] [])
     = Inr ([0, 1], [3/2, 3/2], [1, 2])"
    apply (simp add: demo_env_def crs_unit_def)
    apply (simp add: get_value_from_dem_tile_def cached_load_dataset_def fresh_cache_def
        load_dataset_def dataset_read_def tile_dataset_def affine_invert_def
        affine_determinant_def transform_xy_to_rowcol_def affine_mul_def getitem_def
        axis_index_def tile_band_def)
    done
  from walk_positions [of 2 3 demo_env "[((0, 0, 2, 2), ''dem/a.tif'')]" "[(0, 3), (3, 3)]"
         "pyproj_transform demo_env ''epsg:3857'' ''epsg:4326''" fresh_cache]
  obtain distances where d: "py_range 0 3 2 = Inr distances"
    and loop: "\<forall>x y profile.
      fst (sample_loop demo_env [((0, 0, 2, 2), ''dem/a.tif'')] [(0, 3), (3, 3)]
             (pyproj_transform demo_env ''epsg:3857'' ''epsg:4326'') distances fresh_cache
             [] [] []) = Inr (x, y, profile) \<longrightarrow>
      length profile = length distances \<and>
      length x = length distances \<and> length y = length distances \<and>
      (\<forall>i < length distances.
         (x ! i, y ! i) =
           pyproj_transform demo_env ''epsg:3857'' ''epsg:4326''
             (interpolate demo_env [(0, 3), (3, 3)] (real_of_int (int i * 2))))"
    by auto
  from d pr have ds: "distances = [0, 2]" by simp
  from loop [unfolded ds] run
  have all: "\<forall>i < length [0, 2 :: int].
         ([0, 1 :: real] ! i, [3/2, 3/2 :: real] ! i) =
           pyproj_transform demo_env ''epsg:3857'' ''epsg:4326''
             (interpolate demo_env [(0, 3), (3, 3)] (real_of_int (int i * 2)))"
    by blast
  have "([0, 1 :: real] ! 1, [3/2, 3/2 :: real] ! 1) =
           pyproj_transform demo_env ''epsg:3857'' ''epsg:4326''
             (interpolate demo_env [(0, 3), (3, 3)] (real_of_int (int 1 * 2)))"
    by (rule all [rule_format]) simp
  then have "pyproj_transform demo_env ''epsg:3857'' ''epsg:4326''
     (interpolate demo_env [(0, 3), (3, 3)] (real_of_int (int 1 * 2))) = (1, 3/2)"
    by simp
  with pr run show ?thesis by simp
qed

subsection \<open>Locating the tile of a point\<close>

lemma get_tile_path_for_point_Inr:
  "get_tile_path_for_point extents x y = Inr path \<Longrightarrow>
     \<exists>left bottom right top'. ((left, bottom, right, top'), path) \<in> set extents \<and>
        left \<le> x \<and> x \<le> right \<and> bottom \<le> y \<and> y \<le> top'"
  by (induction extents x y rule: get_tile_path_for_point.induct)
     (auto split: if_splits)

lemma get_tile_path_for_point_Inl:
  "get_tile_path_for_point extents x y = Inl e \<Longrightarrow>
     e = ValueError (No_tile_includes x y) \<and>
     (\<forall>((left, bottom, right, top'), path) \<in> set extents.
        \<not> (left \<le> x \<and> x \<le> right \<and> bottom \<le> y \<and> y \<le> top'))"
  by (induction extents x y rule: get_tile_path_for_point.induct)
     (auto split: if_splits)

text \<open>
  Claim C7. A tile path returned for the point (x, y) belongs to an extent of the index with
  \<open>left \<le> x \<le> right\<close> and \<open>bottom \<le> y \<le> top\<close>; the lookup fails if and only if no extent
  of the index contains the point, and the failure is the ValueError "No tile includes".
\<close>

theorem get_tile_path_for_point_spec:
  "(\<forall>path. get_tile_path_for_point extents x y = Inr path \<longrightarrow>
      (\<exists>left bottom right top'. ((left, bottom, right, top'), path) \<in> set extents \<and>
         left \<le> x \<and> x \<le> right \<and> bottom \<le> y \<and> y \<le> top')) \<and>
   ((\<exists>e. get_tile_path_for_point extents x y = Inl e) \<longleftrightarrow>
      \<not> (\<exists>left bottom right top' path. ((left, bottom, right, top'), path) \<in> set extents \<and>
         left \<le> x \<and> x \<le> right \<and> bottom \<le> y \<and> y \<le> top')) \<and>
   (\<forall>e. get_tile_path_for_point extents x y = Inl e \<longrightarrow> e = ValueError (No_tile_includes x y))"
proof (intro conjI allI impI iffI)
  fix path assume "get_tile_path_for_point extents x y = Inr path"
  then show "\<exists>left bottom right top'. ((left, bottom, right, top'), path) \<in> set extents \<and>
         left \<le> x \<and> x \<le> right \<and> bottom \<le> y \<and> y \<le> top'"
    by (rule get_tile_path_for_point_Inr)
next
  assume "\<exists>e. get_tile_path_for_point extents x y = Inl e"
  then show "\<not> (\<exists>left bottom right top' path. ((left, bottom, right, top'), path) \<in> set extents \<and>
         left \<le> x \<and> x \<le> right \<and> bottom \<le> y \<and> y \<le> top')"
    by (auto dest!: get_tile_path_for_point_Inl)
next
  assume none: "\<not> (\<exists>left bottom right top' path. ((left, bottom, right, top'), path) \<in> set extents \<and>
         left \<le> x \<and> x \<le> right \<and> bottom \<le> y \<and> y \<le> top')"
  show "\<exists>e. get_tile_path_for_point extents x y = Inl e"
  proof (cases "get_tile_path_for_point extents x y")
    case (Inl e)
    then show ?thesis by blast
  next
    case (Inr path)
    with none get_tile_path_for_point_Inr [OF Inr] show ?thesis by blast
  qed
next
  fix e assume "get_tile_path_for_point extents x y = Inl e"
  then show "e = ValueError (No_tile_includes x y)"
    by (auto dest!: get_tile_path_for_point_Inl)
qed

theorem get_tile_path_for_point_spec_witness:
  "get_tile_path_for_point two_tiles 15 5 = Inr ''tile2'' \<and>
   (\<exists>left bottom right top'.
      ((left, bottom, right, top'), ''tile2'') \<in> set two_tiles \<and>
      left \<le> 15 \<and> 15 \<le> right \<and> bottom \<le> 5 \<and> 5 \<le> top') \<and>
   get_tile_path_for_point two_tiles 25 5 = Inl (ValueError (No_tile_includes 25 5))"
proof -
  have hit: "get_tile_path_for_point two_tiles 15 5 = Inr ''tile2''"
    by (simp add: two_tiles_def)
  from get_tile_path_for_point_spec [of two_tiles 15 5] hit
  have a: "\<exists>left bottom right top'.
      ((left, bottom, right, top'), ''tile2'') \<in> set two_tiles \<and>
      left \<le> 15 \<and> 15 \<le> right \<and> bottom \<le> 5 \<and> 5 \<le> top'"
    by blast
  have outside: "\<not> (\<exists>left bottom right top' path.
      ((left, bottom, right, top'), path) \<in> set two_tiles \<and>
      left \<le> 25 \<and> 25 \<le> right \<and> bottom \<le> 5 \<and> 5 \<le> top')"
    by (auto simp: two_tiles_def)
  with get_tile_path_for_point_spec [of two_tiles 25 5]
  have b: "get_tile_path_for_point two_tiles 25 5 = Inl (ValueError (No_tile_includes 25 5))"
    by blast
  from hit a b show ?thesis by blast
qed

subsection \<open>Sampling a tile\<close>




lemma cached_load_dataset_value:
  assumes "cache_ok env cache"
  shows "fst (cached_load_dataset env cache tile_path) = load_dataset env tile_path 1"
proof (cases "map_of (entries cache) tile_path")
  case None
  then show ?thesis
    by (simp add: cached_load_dataset_def split: sum.splits)
next
  case (Some v)
  then have "(tile_path, v) \<in> set (entries cache)" by (rule map_of_SomeD)
  with assms have "load_dataset env tile_path 1 = Inr v"
    by (auto simp: cache_ok_def list_all_iff)
  with Some show ?thesis by (simp add: cached_load_dataset_def)
qed

lemma get_value_from_dem_tile_value:
  assumes "cache_ok env cache" and "load_dataset env tile_path 1 = Inr (band, t)"
    and "transform_xy_to_rowcol t x y = (row, col)"
  shows "fst (get_value_from_dem_tile env cache tile_path x y) = getitem band row col"
proof -
  obtain r cache' where run: "cached_load_dataset env cache tile_path = (r, cache')"
    by (cases "cached_load_dataset env cache tile_path")
  with cached_load_dataset_value [OF assms(1), of tile_path] assms(2)
  have "r = Inr (band, t)" by simp
  with run assms(3) show ?thesis by (simp add: get_value_from_dem_tile_def)
qed

lemma fresh_cache_ok: "cache_ok env fresh_cache"
  by (simp add: cache_ok_def fresh_cache_def)

lemma load_tile: "load_dataset demo_env ''dem/a.tif'' 1 = Inr (tile_band, tile_inverse)"
  by (simp add: load_dataset_def demo_env_def tile_dataset_def dataset_read_def
        affine_invert_def affine_determinant_def tile_inverse_def)

lemma rowcol_tile:
  "transform_xy_to_rowcol tile_inverse x y = (\<lfloor>2 - y\<rfloor>, \<lfloor>x\<rfloor>)"
  by (simp add: transform_xy_to_rowcol_def affine_mul_def tile_inverse_def)




text \<open>
  Claim C3, as stated, fails. On the two-by-two tile the point (1/2, 5/2) has the floored
  row \<open>-1\<close>, outside the grid, and a value is returned; the point (1/2, -1/2) has the floored
  row 2 and the failure is the array's own IndexError.
\<close>

theorem pixel_out_of_bounds_counterexample:
  "load_dataset demo_env ''dem/a.tif'' 1 = Inr (tile_band, tile_inverse) \<and>
   transform_xy_to_rowcol tile_inverse (1/2) (5/2) = (- 1, 0) \<and>
   fst (get_value_from_dem_tile demo_env fresh_cache ''dem/a.tif'' (1/2) (5/2)) = Inr 3 \<and>
   transform_xy_to_rowcol tile_inverse (1/2) (- 1/2) = (2, 0) \<and>
   fst (get_value_from_dem_tile demo_env fresh_cache ''dem/a.tif'' (1/2) (- 1/2))
     = Inl IndexError"
proof -
  have a: "transform_xy_to_rowcol tile_inverse (1/2) (5/2) = (- 1, 0)"
    by (simp add: rowcol_tile)
  have b: "transform_xy_to_rowcol tile_inverse (1/2) (- 1/2) = (2, 0)"
    by (simp add: rowcol_tile)
  have "getitem tile_band (- 1) 0 = Inr 3"
    by (simp add: getitem_def axis_index_def tile_band_def)
  then have c: "fst (get_value_from_dem_tile demo_env fresh_cache ''dem/a.tif'' (1/2) (5/2)) = Inr 3"
    using get_value_from_dem_tile_value [OF fresh_cache_ok load_tile a] by simp
  have "getitem tile_band 2 0 = Inl IndexError"
    by (simp add: getitem_def axis_index_def tile_band_def)
  then have d: "fst (get_value_from_dem_tile demo_env fresh_cache ''dem/a.tif'' (1/2) (- 1/2))
                  = Inl IndexError"
    using get_value_from_dem_tile_value [OF fresh_cache_ok load_tile b] by simp
  from load_tile a b c d show ?thesis by simp
qed

text \<open>
  Claim C3, amended. When the floored row or column is at or beyond its dimension, or below
  minus its dimension, the call fails with the array's IndexError.
\<close>

theorem get_value_from_dem_tile_out_of_range:
  assumes "cache_ok env cache"
    and "load_dataset env tile_path 1 = Inr (band, t)"
    and "transform_xy_to_rowcol t x y = (row, col)"
    and "row \<ge> int (nrows band) \<or> row < - int (nrows band) \<or>
         col \<ge> int (ncols band) \<or> col < - int (ncols band)"
  shows "fst (get_value_from_dem_tile env cache tile_path x y) = Inl IndexError"
proof -
  have "getitem band row col = Inl IndexError"
    using assms(4) by (auto simp: getitem_def axis_index_def Let_def split: sum.splits)
  with get_value_from_dem_tile_value [OF assms(1-3)] show ?thesis by simp
qed

theorem get_value_from_dem_tile_out_of_range_witness:
  "fst (get_value_from_dem_tile demo_env fresh_cache ''dem/a.tif'' (5/2) (3/2)) = Inl IndexError"
proof (rule get_value_from_dem_tile_out_of_range
         [where band = tile_band and t = tile_inverse and row = 0 and col = 2])
  show "cache_ok demo_env fresh_cache" by (rule fresh_cache_ok)
  show "load_dataset demo_env ''dem/a.tif'' 1 = Inr (tile_band, tile_inverse)" by (rule load_tile)
  show "transform_xy_to_rowcol tile_inverse (5/2) (3/2) = (0, 2)" by (simp add: rowcol_tile)
  show "0 \<ge> int (nrows tile_band) \<or> 0 < - int (nrows tile_band) \<or>
        2 \<ge> int (ncols tile_band) \<or> 2 < - int (ncols tile_band)"
    by (simp add: tile_band_def)
qed

text \<open>
  Claim C10, as stated, fails. On the two-by-two tile the point (5/2, 5/2) has the floored
  row \<open>-1\<close>, negative and within the number of rows, and the floored column 2: the call
  signals IndexError.
\<close>

theorem negative_index_counterexample:
  "load_dataset demo_env ''dem/a.tif'' 1 = Inr (tile_band, tile_inverse) \<and>
   transform_xy_to_rowcol tile_inverse (5/2) (5/2) = (- 1, 2) \<and>
   nrows tile_band = 2 \<and> ncols tile_band = 2 \<and>
   fst (get_value_from_dem_tile demo_env fresh_cache ''dem/a.tif'' (5/2) (5/2)) = Inl IndexError"
proof -
  have a: "transform_xy_to_rowcol tile_inverse (5/2) (5/2) = (- 1, 2)"
    by (simp add: rowcol_tile)
  have "getitem tile_band (- 1) 2 = Inl IndexError"
    by (simp add: getitem_def axis_index_def tile_band_def)
  then have "fst (get_value_from_dem_tile demo_env fresh_cache ''dem/a.tif'' (5/2) (5/2))
               = Inl IndexError"
    using get_value_from_dem_tile_value [OF fresh_cache_ok load_tile a] by simp
  with load_tile a show ?thesis by (simp add: tile_band_def)
qed

text \<open>
  Claim C10, amended. When the floored row or column is negative, and each of the two is
  either inside the grid or negative with magnitude at most its dimension, the value
  returned is the cell whose negative indices are counted from the opposite edge.
\<close>

theorem get_value_from_dem_tile_negative_index:
  assumes "cache_ok env cache"
    and "load_dataset env tile_path 1 = Inr (band, t)"
    and "transform_xy_to_rowcol t x y = (row, col)"
    and "row < 0 \<or> col < 0"
    and "- int (nrows band) \<le> row" and "row < int (nrows band)"
    and "- int (ncols band) \<le> col" and "col < int (ncols band)"
  shows "fst (get_value_from_dem_tile env cache tile_path x y) =
           Inr (cells band !
                  (nat (if row < 0 then int (nrows band) + row else row) * ncols band +
                   nat (if col < 0 then int (ncols band) + col else col)))"
proof -
  have r: "axis_index (nrows band) row = Inr (nat (if row < 0 then int (nrows band) + row else row))"
    using assms(5,6) by (simp add: axis_index_def Let_def add.commute)
  have c: "axis_index (ncols band) col = Inr (nat (if col < 0 then int (ncols band) + col else col))"
    using assms(7,8) by (simp add: axis_index_def Let_def add.commute)
  have "getitem band row col =
          Inr (cells band !
                 (nat (if row < 0 then int (nrows band) + row else row) * ncols band +
                  nat (if col < 0 then int (ncols band) + col else col)))"
    unfolding getitem_def r c by simp
  with get_value_from_dem_tile_value [OF assms(1-3)] show ?thesis by simp
qed

theorem get_value_from_dem_tile_negative_index_witness:
  "fst (get_value_from_dem_tile demo_env fresh_cache ''dem/a.tif'' (- 1/2) (5/2)) = Inr 4"
proof -
  have "fst (get_value_from_dem_tile demo_env fresh_cache ''dem/a.tif'' (- 1/2) (5/2)) =
           Inr (cells tile_band !
                  (nat (if (- 1 :: int) < 0 then int (nrows tile_band) + (- 1) else - 1)
                     * ncols tile_band +
                   nat (if (- 1 :: int) < 0 then int (ncols tile_band) + (- 1) else - 1)))"
  proof (rule get_value_from_dem_tile_negative_index [where t = tile_inverse])
    show "cache_ok demo_env fresh_cache" by (rule fresh_cache_ok)
    show "load_dataset demo_env ''dem/a.tif'' 1 = Inr (tile_band, tile_inverse)"
      by (rule load_tile)
    show "transform_xy_to_rowcol tile_inverse (- 1/2) (5/2) = (- 1, - 1)"
      by (simp add: rowcol_tile)
    show "(- 1 :: int) < 0 \<or> (- 1 :: int) < 0" by simp
    show "- int (nrows tile_band) \<le> - 1" by (simp add: tile_band_def)
    show "- 1 < int (nrows tile_band)" by (simp add: tile_band_def)
    show "- int (ncols tile_band) \<le> - 1" by (simp add: tile_band_def)
    show "- 1 < int (ncols tile_band)" by (simp add: tile_band_def)
  qed
  then show ?thesis by (simp add: tile_band_def)
qed

subsection \<open>A folder without tiles\<close>

lemma range_up_empty: "stop \<le> i \<Longrightarrow> range_up i stop step = []"
  by (subst range_up.simps) simp

lemma range_up_first: "0 < step \<Longrightarrow> i < stop \<Longrightarrow>
    range_up i stop step = i # range_up (i + step) stop step"
  by (subst range_up.simps) simp

text \<open>
  Claim C6, amended. When the folder holds no tile, \<open>load_extents\<close> returns the empty index
  without an error. The call then returns the empty profile when the truncated length of
  the line is 0, and otherwise fails at the first position of the walk, with the
  ValueError "No tile includes" for that position.
\<close>

theorem terrain_module_empty_folder:
  assumes "glob_tif env dem_folder = []"
  shows "load_extents env dem_folder = Inr [] \<and>
         terrain_module env cache dem_folder line old_crs new_crs =
           (let line_geometry = map (pyproj_transform env ''epsg:4326'' ''epsg:27700'') line;
                len = py_int (line_length env line_geometry)
            in if len \<le> 0 then (Inr [], cache)
               else case pyproj_transform env ''epsg:27700'' ''epsg:4326''
                           (interpolate env line_geometry 0) of
                      (xp, yp) \<Rightarrow> (Inl (ValueError (No_tile_includes xp yp)), cache))"
proof -
  define line_geometry where
    "line_geometry = map (pyproj_transform env ''epsg:4326'' ''epsg:27700'') line"
  define len where "len = py_int (line_length env line_geometry)"
  define to_ll where "to_ll = pyproj_transform env ''epsg:27700'' ''epsg:4326''"
  have ext: "load_extents env dem_folder = Inr []"
    using assms by (simp add: load_extents_def)
  have rng: "py_range 0 len (determine_length_increment len)
               = Inr (range_up 0 len (determine_length_increment len))"
    using increment_positive by (rule py_range_positive_step)
  have run: "terrain_module env cache dem_folder line old_crs new_crs =
               (case sample_loop env [] line_geometry to_ll
                       (range_up 0 len (determine_length_increment len)) cache [] [] [] of
                  (Inl e, cache') \<Rightarrow> (Inl e, cache')
                | (Inr (x, y, elevation_profile), cache') \<Rightarrow> (Inr elevation_profile, cache'))"
    using rng
    by (simp add: terrain_module_def ext Let_def line_geometry_def [symmetric]
          len_def [symmetric] to_ll_def [symmetric])
  have "(case sample_loop env [] line_geometry to_ll
                (range_up 0 len (determine_length_increment len)) cache [] [] [] of
           (Inl e, cache') \<Rightarrow> (Inl e, cache')
         | (Inr (x, y, elevation_profile), cache') \<Rightarrow> (Inr elevation_profile, cache')) =
        (if len \<le> 0 then (Inr [], cache)
         else case to_ll (interpolate env line_geometry 0) of
                (xp, yp) \<Rightarrow> (Inl (ValueError (No_tile_includes xp yp)), cache))"
  proof (cases "len \<le> 0")
    case True
    then show ?thesis by (simp add: range_up_empty)
  next
    case False
    then have "range_up 0 len (determine_length_increment len) =
                 0 # range_up (0 + determine_length_increment len) len
                       (determine_length_increment len)"
      using increment_positive by (intro range_up_first) simp_all
    with False show ?thesis by (simp split: prod.splits)
  qed
  with run ext show ?thesis
    by (simp add: Let_def line_geometry_def len_def to_ll_def)
qed

text \<open>
  Claim C6, as stated, fails: on a folder without tiles and a line of length 0 the call
  returns the empty profile and raises nothing.
\<close>

theorem empty_folder_counterexample:
  "glob_tif demo_env ''empty'' = [] \<and>
   terrain_module demo_env fresh_cache ''empty'' [(0, 3/2), (0, 3/2)] ''EPSG:4326'' ''EPSG:27700''
     = (Inr [], fresh_cache)"
proof -
  have "py_int (line_length demo_env
          (map (pyproj_transform demo_env ''epsg:4326'' ''epsg:27700'') [(0, 3/2), (0, 3/2)])) = 0"
    by (simp add: demo_env_def py_int_def)
  moreover have "sample_count 0 = Inr 0"
    by (simp add: sample_count_eq determine_length_increment_div)
  moreover have "range_up 0 0 (determine_length_increment 0) = []"
    by (simp add: range_up_empty)
  moreover have "load_extents demo_env ''empty'' = Inr []"
    by (simp add: load_extents_def demo_env_def)
  ultimately show ?thesis
    using increment_positive [of 0]
    by (simp add: terrain_module_def Let_def py_range_positive_step) (simp add: demo_env_def)
qed

theorem terrain_module_empty_folder_witness:
  "glob_tif demo_env ''empty'' = [] \<and>
   terrain_module demo_env fresh_cache ''empty'' [(0, 3/2), (2, 3/2)] ''EPSG:4326'' ''EPSG:27700''
     = (Inl (ValueError (No_tile_includes 0 (3/2))), fresh_cache)"
proof -
  have g: "glob_tif demo_env ''empty'' = []" by (simp add: demo_env_def)
  have len: "py_int (line_length demo_env
          (map (pyproj_transform demo_env ''epsg:4326'' ''epsg:27700'') [(0, 3/2), (2, 3/2)])) = 2"
    by (simp add: demo_env_def py_int_def crs_unit_def)
  have pt: "pyproj_transform demo_env ''epsg:27700'' ''epsg:4326''
          (interpolate demo_env
             (map (pyproj_transform demo_env ''epsg:4326'' ''epsg:27700'') [(0, 3/2), (2, 3/2)]) 0)
          = (0, 3/2)"
    by (simp add: demo_env_def crs_unit_def)
  note inst = terrain_module_empty_folder [OF g, of fresh_cache "[(0, 3/2), (2, 3/2)]"
            "''EPSG:4326''" "''EPSG:27700''"]
  from inst [unfolded Let_def len pt] g show ?thesis by simp
qed

subsection \<open>The reference systems of the reprojections\<close>

text \<open>The two reference-system arguments have no effect on the result.\<close>

lemma terrain_module_ignores_crs:
  "terrain_module env cache dem_folder line old_crs new_crs =
   terrain_module env cache dem_folder line old_crs' new_crs'"
  by (simp add: terrain_module_def)

lemma load_extents_dem: "load_extents demo_env ''dem'' = Inr [((0, 0, 2, 2), ''dem/a.tif'')]"
  by (simp add: load_extents_def demo_env_def tile_dataset_def)

text \<open>
  Claim C2. The claim has the two reference-system arguments decide the reprojections. The
  code reprojects with \<open>epsg:4326\<close> and \<open>epsg:27700\<close> whatever it is given: called with the
  projected system \<open>epsg:3857\<close> on the line from (0, 3/2) to (2, 3/2), it measures the length
  2 and returns two values, where the pipeline as specified measures 4 and returns four.
\<close>

theorem crs_arguments_ignored:
  "fst (terrain_module demo_env fresh_cache ''dem'' [(0, 3/2), (2, 3/2)] ''epsg:4326'' ''epsg:3857'')
     = Inr [1, 2] \<and>
   fst (ExtractProfile_spec demo_env fresh_cache ''dem'' [(0, 3/2), (2, 3/2)]
          ''epsg:4326'' ''epsg:3857'')
     = Inr [1, 1, 2, 2]"
proof -
  have r2: "range_up 0 2 1 = [0, 1]" by code_simp
  have r4: "range_up 0 4 1 = [0, 1, 2, 3]" by code_simp
  have i2: "determine_length_increment 2 = 1" by (simp add: determine_length_increment_div)
  have i4: "determine_length_increment 4 = 1" by (simp add: determine_length_increment_div)
  have code: "fst (terrain_module demo_env fresh_cache ''dem'' [(0, 3/2), (2, 3/2)]
                ''epsg:4326'' ''epsg:3857'') = Inr [1, 2]"
    apply (simp add: terrain_module_def load_extents_dem Let_def)
    apply (simp add: demo_env_def crs_unit_def py_int_def i2 py_range_def r2)
    apply (simp add: get_value_from_dem_tile_def cached_load_dataset_def fresh_cache_def
        load_dataset_def dataset_read_def tile_dataset_def affine_invert_def
        affine_determinant_def transform_xy_to_rowcol_def affine_mul_def getitem_def
        axis_index_def tile_band_def)
    done
  have spec: "fst (ExtractProfile_spec demo_env fresh_cache ''dem'' [(0, 3/2), (2, 3/2)]
          ''epsg:4326'' ''epsg:3857'') = Inr [1, 1, 2, 2]"
    apply (simp add: ExtractProfile_spec_def load_extents_dem Let_def)
    apply (simp add: demo_env_def crs_unit_def py_int_def i4 py_range_def r4)
    apply (simp add: get_value_from_dem_tile_def cached_load_dataset_def fresh_cache_def
        load_dataset_def dataset_read_def tile_dataset_def affine_invert_def
        affine_determinant_def transform_xy_to_rowcol_def affine_mul_def getitem_def
        axis_index_def tile_band_def)
    done
  from code spec show ?thesis by simp
qed

subsection \<open>The cache of decoded tiles\<close>

lemma cached_load_dataset_hit:
  assumes "map_of (entries cache) tile_path = Some v"
  shows "cached_load_dataset env cache tile_path =
           (Inr v, cache\<lparr>entries := (tile_path, v) # AList.delete tile_path (entries cache)\<rparr>)"
  using assms by (simp add: cached_load_dataset_def)

lemma cached_load_dataset_miss:
  assumes "map_of (entries cache) tile_path = None"
    and "load_dataset env tile_path 1 = Inr v"
  shows "cached_load_dataset env cache tile_path =
           (Inr v,
            cache\<lparr>entries :=
                     (tile_path, v) #
                     (if length (entries cache) \<ge> maxsize then butlast (entries cache)
                      else entries cache),
                   decodes := Suc (decodes cache)\<rparr>)"
  using assms by (simp add: cached_load_dataset_def)

lemma cached_load_dataset_bound:
  assumes "length (entries cache) \<le> maxsize"
  shows "length (entries (snd (cached_load_dataset env cache tile_path))) \<le> maxsize"
proof (cases "map_of (entries cache) tile_path")
  case (Some v)
  then have "(tile_path, v) \<in> set (entries cache)" by (rule map_of_SomeD)
  then have "length (AList.delete tile_path (entries cache)) < length (entries cache)"
    unfolding AList.delete_eq by (rule length_filter_less) simp
  with assms show ?thesis
    by (simp add: cached_load_dataset_hit [OF Some])
next
  case None
  with assms show ?thesis
    by (auto simp: cached_load_dataset_def maxsize_def split: sum.splits)
qed

lemma cache_after_bound:
  "length (entries cache) \<le> maxsize \<Longrightarrow>
     length (entries (cache_after env cache paths)) \<le> maxsize"
proof (induction paths arbitrary: cache)
  case Nil
  then show ?case by (simp add: cache_after_def)
next
  case (Cons p paths)
  from Cons.IH [OF cached_load_dataset_bound [OF Cons.prems]]
  show ?case by (simp add: cache_after_def)
qed

lemma cache_after_snoc:
  "cache_after env cache (paths @ [p]) =
     snd (cached_load_dataset env (cache_after env cache paths) p)"
  by (simp add: cache_after_def)

text \<open>
  The paths held, most recently used first, are the first 32 of the distinct paths of the
  calls so far, ordered from the latest use.
\<close>

lemma take_removeAll_absent:
  "p \<notin> set (take n xs) \<Longrightarrow> take n (removeAll p xs) = take n xs"
proof (induction xs arbitrary: n)
  case Nil
  then show ?case by simp
next
  case (Cons x xs)
  then show ?case by (cases n) auto
qed

lemma removeAll_take_present:
  "distinct xs \<Longrightarrow> p \<in> set (take (Suc n) xs) \<Longrightarrow>
     removeAll p (take (Suc n) xs) = take n (removeAll p xs)"
proof (induction xs arbitrary: n)
  case Nil
  then show ?case by simp
next
  case (Cons x xs)
  show ?case
  proof (cases "x = p")
    case True
    then have "p \<notin> set xs" using Cons.prems(1) by simp
    then have "p \<notin> set (take n xs)" by (auto dest: in_set_takeD)
    with True \<open>p \<notin> set xs\<close> show ?thesis by simp
  next
    case False
    with Cons.prems(2) have "p \<in> set (take n xs)" by simp
    then obtain m where n: "n = Suc m" by (cases n) auto
    with Cons.IH [of m] Cons.prems False show ?thesis by simp
  qed
qed

lemma remdups_snoc:
  "remdups (xs @ [p]) = removeAll p (remdups xs) @ [p]"
  by (induction xs) auto

lemma cached_load_dataset_keys:
  assumes keys: "map fst (entries cache) = take maxsize R"
    and R: "distinct R"
    and load: "load_dataset env p 1 = Inr v"
  shows "map fst (entries (snd (cached_load_dataset env cache p)))
           = take maxsize (p # removeAll p R)"
proof (cases "map_of (entries cache) p")
  case (Some v')
  then have "p \<in> set (map fst (entries cache))"
    by (auto dest!: map_of_SomeD intro: rev_image_eqI)
  then have "p \<in> set (take (Suc 31) R)" by (simp add: keys maxsize_def)
  from removeAll_take_present [OF R this]
  have "removeAll p (map fst (entries cache)) = take 31 (removeAll p R)"
    by (simp add: keys maxsize_def)
  then show ?thesis
    by (simp add: cached_load_dataset_hit [OF Some] delete_keys maxsize_def)
next
  case None
  then have "p \<notin> set (take maxsize R)"
    by (simp add: map_of_eq_None_iff keys [symmetric])
  moreover have "set (take 31 R) \<subseteq> set (take 32 R)"
    by (rule set_take_subset_set_take) simp
  ultimately have absent: "p \<notin> set (take 31 R)"
    by (auto simp: maxsize_def)
  have t: "take 31 (removeAll p R) = take 31 R"
    using absent by (rule take_removeAll_absent)
  have len: "length (entries cache) = min (length R) 32"
    using arg_cong [OF keys, of length] by (simp add: maxsize_def)
  have "map fst (if length (entries cache) \<ge> maxsize then butlast (entries cache)
                 else entries cache) = take 31 R"
  proof (cases "length (entries cache) \<ge> maxsize")
    case True
    then have "32 \<le> length R" using len by (simp add: maxsize_def)
    then have "butlast (take 32 R) = take 31 R" by (simp add: butlast_take)
    with True show ?thesis by (simp add: map_butlast keys maxsize_def)
  next
    case False
    then have "length R < 32" using len by (simp add: maxsize_def)
    with False show ?thesis by (simp add: keys maxsize_def)
  qed
  then show ?thesis
    using t by (simp add: cached_load_dataset_miss [OF None load] maxsize_def)
qed

lemma cache_after_keys:
  assumes "\<forall>p \<in> set paths. \<exists>v. load_dataset env p 1 = Inr v"
  shows "map fst (entries (cache_after env fresh_cache paths))
           = take maxsize (rev (remdups paths))"
  using assms
proof (induction paths rule: rev_induct)
  case Nil
  then show ?case by (simp add: cache_after_def fresh_cache_def)
next
  case (snoc p paths)
  then obtain v where load: "load_dataset env p 1 = Inr v" by auto
  have keys: "map fst (entries (cache_after env fresh_cache paths))
                = take maxsize (rev (remdups paths))"
    using snoc by simp
  have "distinct (rev (remdups paths))" by simp
  from cached_load_dataset_keys [OF keys this load]
  show ?case
    by (simp add: cache_after_snoc remdups_snoc removeAll_filter_not_eq rev_filter)
qed

text \<open>
  Claim C9. After any sequence of calls from a fresh cache, the cache holds at most 32
  entries; when every path of the sequence decodes, the paths held are the 32 most recently
  used distinct ones, so that what is evicted is what was used least recently. A call for a
  path that is resident returns the stored band and inverse transform, leaves the count of
  decodings unchanged and makes the entry the most recently used.
\<close>

theorem lru_cache_bound_and_hit:
  "length (entries (cache_after env fresh_cache paths)) \<le> 32 \<and>
   ((\<forall>p \<in> set paths. \<exists>v. load_dataset env p 1 = Inr v) \<longrightarrow>
      map fst (entries (cache_after env fresh_cache paths)) = take 32 (rev (remdups paths))) \<and>
   (map_of (entries cache) tile_path = Some v \<longrightarrow>
      fst (cached_load_dataset env cache tile_path) = Inr v \<and>
      decodes (snd (cached_load_dataset env cache tile_path)) = decodes cache \<and>
      hd (entries (snd (cached_load_dataset env cache tile_path))) = (tile_path, v))"
proof (intro conjI impI)
  have "length (entries fresh_cache) \<le> maxsize" by (simp add: fresh_cache_def)
  then have "length (entries (cache_after env fresh_cache paths)) \<le> maxsize"
    by (rule cache_after_bound)
  then show "length (entries (cache_after env fresh_cache paths)) \<le> 32"
    by (simp add: maxsize_def)
next
  assume "\<forall>p \<in> set paths. \<exists>v. load_dataset env p 1 = Inr v"
  then show "map fst (entries (cache_after env fresh_cache paths)) = take 32 (rev (remdups paths))"
    using cache_after_keys [of paths env] by (simp add: maxsize_def)
next
  assume hit: "map_of (entries cache) tile_path = Some v"
  show "fst (cached_load_dataset env cache tile_path) = Inr v"
    by (simp add: cached_load_dataset_hit [OF hit])
  show "decodes (snd (cached_load_dataset env cache tile_path)) = decodes cache"
    by (simp add: cached_load_dataset_hit [OF hit])
  show "hd (entries (snd (cached_load_dataset env cache tile_path))) = (tile_path, v)"
    by (simp add: cached_load_dataset_hit [OF hit])
qed

lemma load_any_tile: "load_dataset open_all_env p 1 = Inr (tile_band, tile_inverse)"
  by (simp add: load_dataset_def open_all_env_def demo_env_def tile_dataset_def dataset_read_def
        affine_invert_def affine_determinant_def tile_inverse_def)

lemma distinct_many_paths: "distinct many_paths"
proof -
  have "inj (\<lambda>n. replicate n CHR ''t'')"
    by (rule injI) (metis length_replicate)
  then show ?thesis
    unfolding many_paths_def by (simp add: distinct_map inj_on_def)
qed

theorem lru_cache_bound_and_hit_witness:
  "length many_paths = 33 \<and>
   list_all (\<lambda>p. load_dataset open_all_env p 1 = Inr (tile_band, tile_inverse)) many_paths \<and>
   length (entries (cache_after open_all_env fresh_cache many_paths)) \<le> 32 \<and>
   map fst (entries (cache_after open_all_env fresh_cache many_paths))
     = take 32 (rev many_paths) \<and>
   map_of (entries (cache_after open_all_env fresh_cache [''t''])) ''t''
     = Some (tile_band, tile_inverse) \<and>
   fst (cached_load_dataset open_all_env (cache_after open_all_env fresh_cache [''t'']) ''t'')
     = Inr (tile_band, tile_inverse) \<and>
   decodes (snd (cached_load_dataset open_all_env
                   (cache_after open_all_env fresh_cache [''t'']) ''t'')) = 1"
proof -
  have n: "length many_paths = 33" by (simp add: many_paths_def)
  have ok: "\<forall>p \<in> set many_paths. \<exists>v. load_dataset open_all_env p 1 = Inr v"
    by (simp add: load_any_tile)
  have warm: "cache_after open_all_env fresh_cache [''t''] =
                \<lparr>entries = [(''t'', tile_band, tile_inverse)], decodes = 1\<rparr>"
    by (simp add: cache_after_def cached_load_dataset_def fresh_cache_def load_any_tile
          maxsize_def)
  have hit: "map_of (entries (cache_after open_all_env fresh_cache [''t''])) ''t''
               = Some (tile_band, tile_inverse)"
    by (simp add: warm)
  note inst = lru_cache_bound_and_hit [of open_all_env many_paths
                "cache_after open_all_env fresh_cache [''t'']" "''t''" "(tile_band, tile_inverse)"]
  have all: "list_all (\<lambda>p. load_dataset open_all_env p 1 = Inr (tile_band, tile_inverse))
               many_paths"
    by (simp add: list_all_iff load_any_tile)
  from inst ok hit n all show ?thesis
    by (simp add: distinct_remdups_id [OF distinct_many_paths] warm)
qed

text \<open>
  A cache that agrees with the files still does after a call, so every cache reached from a
  fresh one agrees with them.
\<close>

lemma cache_ok_step:
  assumes "cache_ok env cache"
  shows "cache_ok env (snd (cached_load_dataset env cache tile_path))"
proof (cases "map_of (entries cache) tile_path")
  case (Some v)
  then have "(tile_path, v) \<in> set (entries cache)" by (rule map_of_SomeD)
  with assms have "load_dataset env tile_path 1 = Inr v"
    by (auto simp: cache_ok_def list_all_iff)
  with assms show ?thesis
    by (auto simp: cached_load_dataset_hit [OF Some] cache_ok_def list_all_iff AList.delete_eq)
next
  case None
  show ?thesis
  proof (cases "load_dataset env tile_path 1")
    case (Inl e)
    with None assms show ?thesis
      by (simp add: cached_load_dataset_def cache_ok_def)
  next
    case (Inr v)
    with assms show ?thesis
      by (auto simp: cached_load_dataset_miss [OF None Inr] cache_ok_def list_all_iff
            dest: in_set_butlastD)
  qed
qed

lemma cache_ok_after:
  "cache_ok env cache \<Longrightarrow> cache_ok env (cache_after env cache paths)"
proof (induction paths arbitrary: cache)
  case Nil
  then show ?case by (simp add: cache_after_def)
next
  case (Cons p paths)
  from Cons.IH [OF cache_ok_step [OF Cons.prems]]
  show ?case by (simp add: cache_after_def)
qed

end
